theory Spec2Isabelle
  imports Complex_Main "HOL-Library.Stream"
begin

section \<open>Constants of snake.py\<close>

type_synonym cell = "int \<times> int"

definition SCREEN_WIDTH :: int where "SCREEN_WIDTH = 800"
definition SCREEN_HEIGHT :: int where "SCREEN_HEIGHT = 600"
definition GRID_SIZE :: int where "GRID_SIZE = 20"

definition GRID_WIDTH :: int where "GRID_WIDTH = SCREEN_WIDTH div GRID_SIZE"
definition GRID_HEIGHT :: int where "GRID_HEIGHT = SCREEN_HEIGHT div GRID_SIZE"


definition SNAKE_COLORS :: "(int \<times> int \<times> int) list" where
  "SNAKE_COLORS =
     [(0, 255, 0), (0, 200, 255), (255, 255, 0), (255, 0, 255),
      (0, 255, 255), (255, 165, 0), (138, 43, 226), (255, 105, 180)]"

definition UP :: cell where "UP = (0, - 1)"
definition DOWN :: cell where "DOWN = (0, 1)"
definition LEFT :: cell where "LEFT = (- 1, 0)"
definition RIGHT :: cell where "RIGHT = (1, 0)"

section \<open>The snake\<close>

text \<open>
  The six attributes that \<^verbatim>\<open>Snake.reset\<close> assigns. Scores and counters are Python
  integers, hence \<^typ>\<open>int\<close>. \<^verbatim>\<open>next_direction\<close> is either \<^verbatim>\<open>None\<close> or a pair; a
  pair is always truthy in Python, so the test \<^verbatim>\<open>if self.next_direction\<close> is
  exactly the test for \<open>Some\<close>.
\<close>

record snake =
  positions :: "cell list"
  direction :: cell
  next_direction :: "cell option"
  score :: int
  color_index :: int
  grow_pending :: int

datatype py_error = IndexError

text \<open>\<^verbatim>\<open>self.positions[0]\<close> raises \<^verbatim>\<open>IndexError\<close> on an empty list.\<close>

definition get_head_position :: "snake \<Rightarrow> py_error + cell" where
  "get_head_position s =
     (case positions s of [] \<Rightarrow> Inl IndexError | p # _ \<Rightarrow> Inr p)"

text \<open>
  Lines 67--70 of \<^verbatim>\<open>update\<close>: a buffered direction is adopted, and the buffer
  cleared, unless its negation is the current direction.
\<close>

definition adopt_direction :: "snake \<Rightarrow> snake" where
  "adopt_direction s =
     (case next_direction s of
        None \<Rightarrow> s
      | Some nd \<Rightarrow>
          if (fst nd * - 1, snd nd * - 1) \<noteq> direction s
          then s\<lparr>direction := nd, next_direction := None\<rparr>
          else s)"

text \<open>
  \<^verbatim>\<open>Snake.update\<close>. The result is \<open>Inl\<close> for a raised exception and otherwise
  \<open>Inr (flag, snake)\<close> with the returned flag and the mutated object. The two
  \<^verbatim>\<open>return True\<close> statements come after the direction has been written and before
  the list is touched. In the self-collision check the inner test only chooses between
  \<^verbatim>\<open>pass\<close>, which falls through to the move, and \<^verbatim>\<open>return True\<close>; \<^verbatim>\<open>positions[-1]\<close>
  is read only when the list has the new head in it, so it is \<open>last\<close> of a non-empty
  list, and \<^verbatim>\<open>pop()\<close> follows an insertion. The only exception is the \<^verbatim>\<open>IndexError\<close> of
  \<^verbatim>\<open>get_head_position\<close>, raised after the direction step; the object is not observed
  after it, \<^verbatim>\<open>main\<close> does not catch it.
\<close>

definition update :: "snake \<Rightarrow> py_error + (bool \<times> snake)" where
  "update s0 =
     (let s = adopt_direction s0 in
      case get_head_position s of
        Inl e \<Rightarrow> Inl e
      | Inr (head_x, head_y) \<Rightarrow>
          (let (dir_x, dir_y) = direction s;
               new_head_pos = (head_x + dir_x, head_y + dir_y)
           in if \<not> (0 \<le> fst new_head_pos \<and> fst new_head_pos < GRID_WIDTH
                    \<and> 0 \<le> snd new_head_pos \<and> snd new_head_pos < GRID_HEIGHT)
              then Inr (True, s)
              else if new_head_pos \<in> set (positions s)
                      \<and> \<not> (new_head_pos = last (positions s) \<and> grow_pending s = 0)
              then Inr (True, s)
              else (let s1 = s\<lparr>positions := new_head_pos # positions s\<rparr>
                    in if grow_pending s1 > 0
                       then Inr (False, s1\<lparr>grow_pending := grow_pending s1 - 1\<rparr>)
                       else Inr (False, s1\<lparr>positions := butlast (positions s1)\<rparr>))))"

definition grow :: "snake \<Rightarrow> snake" where
  "grow s =
     (let s1 = s\<lparr>grow_pending := grow_pending s + 1\<rparr>;
          s2 = s1\<lparr>score := score s1 + 1\<rparr>
      in if score s2 > 0 \<and> score s2 mod 10 = 0
         then s2\<lparr>color_index := (color_index s2 + 1) mod int (length SNAKE_COLORS)\<rparr>
         else s2)"

definition change_direction :: "cell \<Rightarrow> snake \<Rightarrow> snake" where
  "change_direction new_direction s = s\<lparr>next_direction := Some new_direction\<rparr>"


text \<open>The cells of the grid, as the wall check of \<^verbatim>\<open>update\<close> delimits them.\<close>

definition in_grid :: "cell \<Rightarrow> bool" where
  "in_grid p \<longleftrightarrow> 0 \<le> fst p \<and> fst p < GRID_WIDTH \<and> 0 \<le> snd p \<and> snd p < GRID_HEIGHT"

text \<open>The exact opposite of a direction vector.\<close>

definition opposite :: "cell \<Rightarrow> cell" where
  "opposite d = (- fst d, - snd d)"

section \<open>The random source\<close>

text \<open>
  The state of Python's \<^verbatim>\<open>random\<close> module is a stream of naturals, one consumed
  per call. \<^verbatim>\<open>random.randint(a, b)\<close> returns an integer of \<open>[a, b]\<close> and
  \<^verbatim>\<open>random.choice(xs)\<close> an element of \<open>xs\<close>; every value of the range is
  produced by some stream. Both are only called with a non-empty range here
  (\<open>0 \<le> GRID_WIDTH - 1\<close>, \<open>0 \<le> GRID_HEIGHT - 1\<close>, a list of four directions).
\<close>

type_synonym random_state = "nat stream"

definition random_randint :: "int \<Rightarrow> int \<Rightarrow> random_state \<Rightarrow> int \<times> random_state" where
  "random_randint a b g = (a + int (shd g mod nat (b - a + 1)), stl g)"

definition random_choice :: "'a list \<Rightarrow> random_state \<Rightarrow> 'a \<times> random_state" where
  "random_choice xs g = (xs ! (shd g mod length xs), stl g)"

text \<open>\<^verbatim>\<open>Snake.reset\<close> assigns every attribute, so the result needs no old snake.\<close>

definition reset :: "random_state \<Rightarrow> snake \<times> random_state" where
  "reset g =
     (let (d, g') = random_choice [UP, DOWN, LEFT, RIGHT] g
      in (\<lparr>positions = [(GRID_WIDTH div 2, GRID_HEIGHT div 2)],
           direction = d,
           next_direction = Some d,
           score = 0,
           color_index = 0,
           grow_pending = 0\<rparr>, g'))"

section \<open>The food\<close>

record food =
  position :: cell

text \<open>
  \<^verbatim>\<open>Food.randomize_position\<close> is a \<^verbatim>\<open>while True\<close> loop with no bound on the number
  of rounds: \<open>None\<close> is the loop that never leaves.
\<close>

partial_function (option) randomize_position ::
  "food \<Rightarrow> cell list \<Rightarrow> random_state \<Rightarrow> (food \<times> random_state) option" where
  "randomize_position f snake_positions g =
     (let (x, g1) = random_randint 0 (GRID_WIDTH - 1) g;
          (y, g2) = random_randint 0 (GRID_HEIGHT - 1) g1;
          f' = f\<lparr>position := (x, y)\<rparr>
      in if position f' \<notin> set snake_positions
         then Some (f', g2)
         else randomize_position f' snake_positions g2)"

text \<open>\<^verbatim>\<open>Food.__init__\<close>: a dummy position, then a first randomisation against \<open>[]\<close>.\<close>

definition Food :: "random_state \<Rightarrow> (food \<times> random_state) option" where
  "Food g = randomize_position \<lparr>position = (0, 0)\<rparr> [] g"

section \<open>The main loop\<close>

datatype key = K_UP | K_DOWN | K_LEFT | K_RIGHT | K_r | K_q | K_other

datatype event = QUIT | KEYDOWN key | OTHER_EVENT

text \<open>The local variables of \<^verbatim>\<open>main\<close> that the game logic reads and writes.\<close>

record game =
  the_snake :: snake
  the_food :: food
  game_over :: bool
  running :: bool
  rand :: random_state

text \<open>Lines 223--230: the objects created before the loop.\<close>

definition main_init :: "random_state \<Rightarrow> game option" where
  "main_init g =
     (let (sn, g1) = reset g
      in case Food g1 of
           None \<Rightarrow> None
         | Some (fd, g2) \<Rightarrow>
             (case randomize_position fd (positions sn) g2 of
                None \<Rightarrow> None
              | Some (fd', g3) \<Rightarrow>
                  Some \<lparr>the_snake = sn, the_food = fd', game_over = False,
                        running = True, rand = g3\<rparr>))"

text \<open>Lines 234--253: the body of the event loop, for one event.\<close>

definition handle_event :: "event \<Rightarrow> game \<Rightarrow> game option" where
  "handle_event ev st =
     (case ev of
        QUIT \<Rightarrow> Some (st\<lparr>running := False\<rparr>)
      | KEYDOWN k \<Rightarrow>
          if game_over st then
            (if k = K_r then
               (let (sn, g1) = reset (rand st)
                in case randomize_position (the_food st) (positions sn) g1 of
                     None \<Rightarrow> None
                   | Some (fd, g2) \<Rightarrow>
                       Some (st\<lparr>the_snake := sn, the_food := fd,
                                 game_over := False, rand := g2\<rparr>))
             else if k = K_q then Some (st\<lparr>running := False\<rparr>)
             else Some st)
          else
            (if k = K_UP then Some (st\<lparr>the_snake := change_direction UP (the_snake st)\<rparr>)
             else if k = K_DOWN then Some (st\<lparr>the_snake := change_direction DOWN (the_snake st)\<rparr>)
             else if k = K_LEFT then Some (st\<lparr>the_snake := change_direction LEFT (the_snake st)\<rparr>)
             else if k = K_RIGHT then Some (st\<lparr>the_snake := change_direction RIGHT (the_snake st)\<rparr>)
             else Some st)
      | OTHER_EVENT \<Rightarrow> Some st)"

fun handle_events :: "event list \<Rightarrow> game \<Rightarrow> game option" where
  "handle_events [] st = Some st"
| "handle_events (ev # evs) st =
     (case handle_event ev st of None \<Rightarrow> None | Some st' \<Rightarrow> handle_events evs st')"

text \<open>
  Lines 256--263: the game logic of one frame. An exception of \<^verbatim>\<open>update\<close> leaves
  \<^verbatim>\<open>main\<close>: \<open>Some (Inl e)\<close>; a food placement that never returns is \<open>None\<close>.
\<close>

definition game_logic :: "game \<Rightarrow> (py_error + game) option" where
  "game_logic st =
     (if \<not> game_over st then
        (case update (the_snake st) of
           Inl e \<Rightarrow> Some (Inl e)
         | Inr (r, sn) \<Rightarrow>
             (let st1 = st\<lparr>the_snake := sn, game_over := r\<rparr>
              in if game_over st1 then Some (Inr st1)
                 else (case get_head_position (the_snake st1) of
                         Inl e \<Rightarrow> Some (Inl e)
                       | Inr h \<Rightarrow>
                           if h = position (the_food st1) then
                             (let sn' = grow (the_snake st1)
                              in case randomize_position (the_food st1) (positions sn') (rand st1) of
                                   None \<Rightarrow> None
                                 | Some (fd, g') \<Rightarrow>
                                     Some (Inr (st1\<lparr>the_snake := sn', the_food := fd, rand := g'\<rparr>)))
                           else Some (Inr st1))))
      else Some (Inr st))"

text \<open>One round of \<^verbatim>\<open>while running\<close>: the pending events, then the game logic.\<close>

definition frame :: "event list \<Rightarrow> game \<Rightarrow> (py_error + game) option" where
  "frame evs st =
     (case handle_events evs st of None \<Rightarrow> None | Some st' \<Rightarrow> game_logic st')"

text \<open>The states of the session: the initial one, and what a round makes of one.\<close>

inductive reachable :: "game \<Rightarrow> bool" where
  start: "main_init g = Some st \<Longrightarrow> reachable st"
| round: "reachable st \<Longrightarrow> running st \<Longrightarrow> frame evs st = Some (Inr st') \<Longrightarrow> reachable st'"




text \<open>Calling \<^verbatim>\<open>update\<close> \<open>n\<close> times in a row, whatever flag each call returns.\<close>

fun run_updates :: "nat \<Rightarrow> snake \<Rightarrow> py_error + snake" where
  "run_updates 0 s = Inr s"
| "run_updates (Suc n) s =
     (case update s of Inl e \<Rightarrow> Inl e | Inr (_, s') \<Rightarrow> run_updates n s')"

text \<open>Calling \<^verbatim>\<open>update\<close> \<open>n\<close> times in a row, each call returning \<^verbatim>\<open>False\<close>.\<close>

fun update_times :: "nat \<Rightarrow> snake \<Rightarrow> snake option" where
  "update_times 0 s = Some s"
| "update_times (Suc n) s =
     (case update s of
        Inl e \<Rightarrow> None
      | Inr (r, s') \<Rightarrow> if r then None else update_times n s')"

text \<open>The cell that the \<open>n\<close>-th round of \<^verbatim>\<open>randomize_position\<close> draws.\<close>

definition drawn_cell :: "nat \<Rightarrow> random_state \<Rightarrow> cell" where
  "drawn_cell n g =
     (fst (random_randint 0 (GRID_WIDTH - 1) (sdrop (2 * n) g)),
      fst (random_randint 0 (GRID_HEIGHT - 1) (stl (sdrop (2 * n) g))))"

text \<open>Every cell of the grid, row by row.\<close>

definition full_grid :: "cell list" where
  "full_grid = List.product (map int [0..<nat GRID_WIDTH]) (map int [0..<nat GRID_HEIGHT])"

section \<open>Sample states\<close>

text \<open>A snake as \<^verbatim>\<open>reset\<close> leaves it when the random direction is \<^verbatim>\<open>RIGHT\<close>.\<close>

definition lone_snake :: snake where
  "lone_snake =
     \<lparr>positions = [(20, 15)], direction = RIGHT, next_direction = Some RIGHT,
      score = 0, color_index = 0, grow_pending = 0\<rparr>"

text \<open>A snake of four cells whose head, moving right, enters the cell of its tail.\<close>

definition coiled_snake :: snake where
  "coiled_snake =
     \<lparr>positions = [(5, 5), (5, 6), (6, 6), (6, 5)], direction = RIGHT, next_direction = None,
      score = 3, color_index = 0, grow_pending = 0\<rparr>"

text \<open>A snake whose head is in the last column, facing the wall.\<close>

definition wall_snake :: snake where
  "wall_snake =
     \<lparr>positions = [(39, 15), (38, 15)], direction = RIGHT, next_direction = None,
      score = 1, color_index = 0, grow_pending = 0\<rparr>"

text \<open>The session as \<^verbatim>\<open>main\<close> sets it up from the constant random source \<open>7, 7, \<dots>\<close>.\<close>

definition playing_game :: game where
  "playing_game =
     \<lparr>the_snake = lone_snake, the_food = \<lparr>position = (7, 7)\<rparr>,
      game_over = False, running = True, rand = sconst 7\<rparr>"

text \<open>A session whose food lies on the cell in front of the head.\<close>

definition feeding_game :: game where
  "feeding_game =
     \<lparr>the_snake = lone_snake, the_food = \<lparr>position = (21, 15)\<rparr>,
      game_over = False, running = True, rand = 21 ## 15 ## sconst 7\<rparr>"

text \<open>A session that has ended against the wall.\<close>

definition over_game :: game where
  "over_game =
     \<lparr>the_snake = wall_snake, the_food = \<lparr>position = (20, 15)\<rparr>,
      game_over = True, running = True, rand = 3 ## 20 ## 15 ## sconst 7\<rparr>"

section \<open>Basic facts\<close>

lemma GRID_WIDTH_eq: "GRID_WIDTH = 40"
  by (simp add: GRID_WIDTH_def SCREEN_WIDTH_def GRID_SIZE_def)

lemma GRID_HEIGHT_eq: "GRID_HEIGHT = 30"
  by (simp add: GRID_HEIGHT_def SCREEN_HEIGHT_def GRID_SIZE_def)

lemma length_SNAKE_COLORS: "length SNAKE_COLORS = 8"
  by (simp add: SNAKE_COLORS_def)

subsection \<open>One call of update\<close>

lemma positions_adopt_direction [simp]: "positions (adopt_direction s) = positions s"
  by (simp add: adopt_direction_def split: option.splits)

lemma grow_pending_adopt_direction [simp]: "grow_pending (adopt_direction s) = grow_pending s"
  by (simp add: adopt_direction_def split: option.splits)

lemma update_Nil: "positions s = [] \<Longrightarrow> update s = Inl IndexError"
  by (simp add: update_def get_head_position_def Let_def)

lemma update_Cons:
  assumes "positions s = (hx, hy) # rest" and "direction (adopt_direction s) = (dx, dy)"
  shows "update s =
     (if \<not> in_grid (hx + dx, hy + dy) then Inr (True, adopt_direction s)
      else if (hx + dx, hy + dy) \<in> set (positions s)
              \<and> \<not> ((hx + dx, hy + dy) = last (positions s) \<and> grow_pending s = 0)
      then Inr (True, adopt_direction s)
      else if grow_pending s > 0
      then Inr (False, (adopt_direction s)\<lparr>positions := (hx + dx, hy + dy) # positions s,
                                           grow_pending := grow_pending s - 1\<rparr>)
      else Inr (False, (adopt_direction s)\<lparr>positions := (hx + dx, hy + dy) # butlast (positions s)\<rparr>))"
  using assms
  by (simp add: update_def get_head_position_def Let_def in_grid_def)

lemma update_True_positions:
  assumes "update s = Inr (True, s')"
  shows "positions s' = positions s"
proof (cases "positions s")
  case Nil
  with assms show ?thesis by (simp add: update_Nil)
next
  case (Cons h rest)
  obtain hx hy where h: "h = (hx, hy)" by (cases h)
  obtain dx dy where d: "direction (adopt_direction s) = (dx, dy)"
    by (cases "direction (adopt_direction s)")
  from assms have "s' = adopt_direction s"
    unfolding update_Cons [OF Cons [unfolded h] d] by (simp split: if_splits)
  then show ?thesis by simp
qed

lemma update_False_effect:
  assumes "update s = Inr (False, s')"
  shows "if grow_pending s > 0
         then length (positions s') = length (positions s) + 1 \<and> grow_pending s' = grow_pending s - 1
         else length (positions s') = length (positions s) \<and> grow_pending s' = grow_pending s"
proof (cases "positions s")
  case Nil
  with assms show ?thesis by (simp add: update_Nil)
next
  case (Cons h rest)
  obtain hx hy where h: "h = (hx, hy)" by (cases h)
  obtain dx dy where d: "direction (adopt_direction s) = (dx, dy)"
    by (cases "direction (adopt_direction s)")
  from assms show ?thesis
    unfolding update_Cons [OF Cons [unfolded h] d]
    by (auto simp: Cons split: if_splits)
qed

lemma update_times_steady:
  "grow_pending s = 0 \<Longrightarrow> update_times n s = Some s' \<Longrightarrow>
   length (positions s') = length (positions s) \<and> grow_pending s' = 0"
proof (induction n arbitrary: s)
  case 0
  then show ?case by simp
next
  case (Suc n)
  from Suc.prems(2) obtain s1 where u: "update s = Inr (False, s1)"
    and rest: "update_times n s1 = Some s'"
    by (auto split: sum.splits if_splits)
  from update_False_effect [OF u] Suc.prems(1)
  have "length (positions s1) = length (positions s)" and "grow_pending s1 = 0" by simp_all
  with Suc.IH [OF _ rest] show ?case by simp
qed

lemma positions_grow [simp]: "positions (grow s) = positions s"
  by (simp add: grow_def Let_def)

lemma grow_pending_grow [simp]: "grow_pending (grow s) = grow_pending s + 1"
  by (simp add: grow_def Let_def)

lemma adopt_direction_reversal:
  "next_direction s = Some (opposite (direction s)) \<Longrightarrow> adopt_direction s = s"
  by (simp add: adopt_direction_def opposite_def)

lemma update_reversal:
  assumes "positions s \<noteq> []" and "next_direction s = Some (opposite (direction s))"
  shows "\<exists>r s'. update s = Inr (r, s') \<and> direction s' = direction s
            \<and> next_direction s' = next_direction s \<and> positions s' \<noteq> []"
proof -
  from assms(1) obtain hx hy rest where p: "positions s = (hx, hy) # rest"
    by (cases "positions s") auto
  obtain dx dy where d: "direction (adopt_direction s) = (dx, dy)"
    by (cases "direction (adopt_direction s)")
  show ?thesis
    unfolding update_Cons [OF p d] adopt_direction_reversal [OF assms(2)]
    by (auto simp: p)
qed

lemma run_updates_reversal:
  "positions s \<noteq> [] \<Longrightarrow> next_direction s = Some (opposite (direction s)) \<Longrightarrow>
   \<exists>s'. run_updates n s = Inr s' \<and> direction s' = direction s
            \<and> next_direction s' = next_direction s"
proof (induction n arbitrary: s)
  case 0
  then show ?case by simp
next
  case (Suc n)
  from update_reversal [OF Suc.prems] obtain r s1 where u: "update s = Inr (r, s1)"
    and keep: "direction s1 = direction s" "next_direction s1 = next_direction s"
    and ne: "positions s1 \<noteq> []"
    by blast
  from Suc.IH [OF ne] keep Suc.prems(2) obtain s' where "run_updates n s1 = Inr s'"
    and "direction s' = direction s1" and "next_direction s' = next_direction s1"
    by auto
  with u keep show ?case by simp
qed

lemma update_buffer_change:
  assumes "update t = Inr (r, t')" and "next_direction t' \<noteq> next_direction t"
  shows "\<exists>nd. next_direction t = Some nd \<and> opposite nd \<noteq> direction t
           \<and> direction t' = nd \<and> next_direction t' = None"
proof (cases "positions t")
  case Nil
  with assms show ?thesis by (simp add: update_Nil)
next
  case (Cons h rest)
  obtain hx hy where h: "h = (hx, hy)" by (cases h)
  obtain dx dy where d: "direction (adopt_direction t) = (dx, dy)"
    by (cases "direction (adopt_direction t)")
  from assms(1) have a: "direction t' = direction (adopt_direction t)
      \<and> next_direction t' = next_direction (adopt_direction t)"
    unfolding update_Cons [OF Cons [unfolded h] d]
    by (auto split: if_splits)
  with assms(2) show ?thesis
    by (auto simp: adopt_direction_def opposite_def split: option.splits if_splits)
qed

subsection \<open>Score and colour\<close>

lemma div10_step:
  "(m + 1) div 10 = m div 10 + (if (m + 1) mod 10 = 0 then 1 else (0::int))"
proof -
  define r where "r = m mod 10"
  have r: "0 \<le> r" "r < 10" by (simp_all add: r_def)
  have d: "(m + 1) div 10 = m div 10 + (r + 1) div 10"
    using div_add1_eq [of m 1 10] by (simp add: r_def)
  have md: "(m + 1) mod 10 = (r + 1) mod 10"
    unfolding r_def by (rule mod_add_left_eq [symmetric])
  show ?thesis
  proof (cases "r = 9")
    case True
    then show ?thesis by (simp add: d md)
  next
    case False
    with r have "0 \<le> r + 1" and "r + 1 < 10" by simp_all
    then have "(r + 1) div 10 = 0" and "(r + 1) mod 10 = r + 1" by simp_all
    with r show ?thesis by (simp add: d md)
  qed
qed

lemma grow_score: "score (grow s) = score s + 1"
  by (simp add: grow_def Let_def)

lemma grow_color_index: "color_index (grow s) =
     (if 0 < score s + 1 \<and> (score s + 1) mod 10 = 0 then (color_index s + 1) mod 8 else color_index s)"
  by (simp add: grow_def Let_def length_SNAKE_COLORS)

lemma grow_iter:
  assumes "score s = 0" and "color_index s = 0"
  shows "score ((grow ^^ n) s) = int n \<and> color_index ((grow ^^ n) s) = (int n div 10) mod 8"
proof (induction n)
  case 0
  from assms show ?case by simp
next
  case (Suc n)
  then have sc: "score ((grow ^^ n) s) = int n"
    and ci: "color_index ((grow ^^ n) s) = (int n div 10) mod 8"
    by simp_all
  have "color_index (grow ((grow ^^ n) s)) = ((int n + 1) div 10) mod 8"
  proof (cases "(int n + 1) mod 10 = 0")
    case True
    then show ?thesis
      unfolding grow_color_index sc ci div10_step [of "int n"] by (simp add: mod_simps)
  next
    case False
    then show ?thesis
      unfolding grow_color_index sc ci div10_step [of "int n"] by simp
  qed
  then show ?case by (simp add: grow_score sc add.commute)
qed

subsection \<open>Food placement\<close>

lemma random_randint_range:
  "a \<le> b \<Longrightarrow> a \<le> fst (random_randint a b g) \<and> fst (random_randint a b g) \<le> b"
proof -
  assume ab: "a \<le> b"
  then have pos: "0 < nat (b - a + 1)" by simp
  have "shd g mod nat (b - a + 1) < nat (b - a + 1)"
    using pos by (rule mod_less_divisor)
  then have "int (shd g mod nat (b - a + 1)) < b - a + 1"
    using ab by linarith
  then show ?thesis by (simp add: random_randint_def)
qed

lemma snd_random_randint [simp]: "snd (random_randint a b g) = stl g"
  by (simp add: random_randint_def)

lemma drawn_cell_in_grid: "in_grid (drawn_cell n g)"
  using random_randint_range [of 0 "GRID_WIDTH - 1" "sdrop (2 * n) g"]
    random_randint_range [of 0 "GRID_HEIGHT - 1" "stl (sdrop (2 * n) g)"]
  by (simp add: in_grid_def drawn_cell_def GRID_WIDTH_eq GRID_HEIGHT_eq)

lemma drawn_cell_Suc: "drawn_cell (Suc n) g = drawn_cell n (stl (stl g))"
  by (simp add: drawn_cell_def)

lemma randomize_position_unfold:
  "randomize_position f ps g =
     (if drawn_cell 0 g \<notin> set ps
      then Some (f\<lparr>position := drawn_cell 0 g\<rparr>, stl (stl g))
      else randomize_position (f\<lparr>position := drawn_cell 0 g\<rparr>) ps (stl (stl g)))"
  by (subst randomize_position.simps)
     (simp add: drawn_cell_def Let_def split_beta)

lemma randomize_position_cases:
  assumes "randomize_position f ps g = Some r"
    and "\<And>f g. drawn_cell 0 g \<notin> set ps \<Longrightarrow>
           P f g (f\<lparr>position := drawn_cell 0 g\<rparr>, stl (stl g))"
    and "\<And>f g r. drawn_cell 0 g \<in> set ps \<Longrightarrow>
           P (f\<lparr>position := drawn_cell 0 g\<rparr>) (stl (stl g)) r \<Longrightarrow> P f g r"
  shows "P f g r"
proof -
  have "ps = ps \<longrightarrow> P f g r"
  proof (rule randomize_position.raw_induct
      [where P = "\<lambda>f ps' g r. ps' = ps \<longrightarrow> P f g r", OF _ assms(1)])
    fix rp :: "food \<Rightarrow> cell list \<Rightarrow> random_state \<Rightarrow> (food \<times> random_state) option"
    fix f ps' g r
    assume IH: "\<And>f ps' g r. rp f ps' g = Some r \<Longrightarrow> ps' = ps \<longrightarrow> P f g r"
    assume body: "(let (x, g1) = random_randint 0 (GRID_WIDTH - 1) g;
          (y, g2) = random_randint 0 (GRID_HEIGHT - 1) g1;
          f' = f\<lparr>position := (x, y)\<rparr>
      in if position f' \<notin> set ps' then Some (f', g2)
         else rp f' ps' g2) = Some r"
    show "ps' = ps \<longrightarrow> P f g r"
    proof
      assume eq: "ps' = ps"
      have b: "(if drawn_cell 0 g \<notin> set ps
          then Some (f\<lparr>position := drawn_cell 0 g\<rparr>, stl (stl g))
          else rp (f\<lparr>position := drawn_cell 0 g\<rparr>) ps (stl (stl g))) = Some r"
        using body unfolding eq drawn_cell_def
        by (simp add: Let_def split_beta split: if_splits)
      show "P f g r"
      proof (cases "drawn_cell 0 g \<in> set ps")
        case False
        with b have "r = (f\<lparr>position := drawn_cell 0 g\<rparr>, stl (stl g))" by simp
        with assms(2) [OF False] show ?thesis by simp
      next
        case True
        with b have "rp (f\<lparr>position := drawn_cell 0 g\<rparr>) ps (stl (stl g)) = Some r" by simp
        from IH [OF this] have "P (f\<lparr>position := drawn_cell 0 g\<rparr>) (stl (stl g)) r" by simp
        with assms(3) [OF True] show ?thesis .
      qed
    qed
  qed
  then show ?thesis by simp
qed

lemma randomize_position_sound:
  assumes "randomize_position f ps g = Some (f', g')"
  shows "in_grid (position f') \<and> position f' \<notin> set ps"
proof -
  have "in_grid (position (fst (f', g'))) \<and> position (fst (f', g')) \<notin> set ps"
    by (rule randomize_position_cases [OF assms]) (simp_all add: drawn_cell_in_grid)
  then show ?thesis by simp
qed

lemma randomize_position_drawn:
  assumes "randomize_position f ps g = Some r"
  shows "\<exists>n. drawn_cell n g \<notin> set ps"
proof (rule randomize_position_cases [OF assms])
  fix f :: food and g
  assume "drawn_cell 0 g \<notin> set ps"
  then show "\<exists>n. drawn_cell n g \<notin> set ps" ..
next
  fix f :: food and g and r :: "food \<times> random_state"
  assume "\<exists>n. drawn_cell n (stl (stl g)) \<notin> set ps"
  then obtain n where "drawn_cell (Suc n) g \<notin> set ps"
    by (auto simp: drawn_cell_Suc)
  then show "\<exists>n. drawn_cell n g \<notin> set ps" ..
qed

lemma randomize_position_returns:
  "drawn_cell n g \<notin> set ps \<Longrightarrow> \<exists>r. randomize_position f ps g = Some r"
proof (induction n arbitrary: f g)
  case 0
  then show ?case by (subst randomize_position_unfold) simp
next
  case (Suc n)
  then have "drawn_cell n (stl (stl g)) \<notin> set ps" by (simp add: drawn_cell_Suc)
  from Suc.IH [OF this] show ?case
    by (subst randomize_position_unfold) simp
qed

lemma set_map_int_upt: "set (map int [0..<nat N]) = {x. 0 \<le> x \<and> x < N}"
proof (intro set_eqI iffI)
  fix x
  assume "x \<in> set (map int [0..<nat N])"
  then obtain k where "x = int k" and "k < nat N" by auto
  then show "x \<in> {x. 0 \<le> x \<and> x < N}" by simp
next
  fix x
  assume "x \<in> {x. 0 \<le> x \<and> x < N}"
  then have "0 \<le> x" and "x < N" by simp_all
  then have "nat x \<in> set [0..<nat N]" and "x = int (nat x)" by simp_all
  then show "x \<in> set (map int [0..<nat N])"
    unfolding set_map by (rule image_eqI [rotated])
qed

lemma set_full_grid: "set full_grid = {p. in_grid p}"
  unfolding full_grid_def set_product set_map_int_upt
  by (auto simp: in_grid_def)

lemma randomize_position_full_grid: "randomize_position f full_grid g = None"
proof (rule ccontr)
  assume "randomize_position f full_grid g \<noteq> None"
  then obtain r where "randomize_position f full_grid g = Some r" by auto
  from randomize_position_drawn [OF this] obtain n where "drawn_cell n g \<notin> set full_grid" ..
  with drawn_cell_in_grid [of n g] show False by (simp add: set_full_grid)
qed

lemma randomize_position_first_free:
  "drawn_cell n g \<notin> set ps \<Longrightarrow> (\<forall>k<n. drawn_cell k g \<in> set ps) \<Longrightarrow>
   randomize_position f ps g = Some (f\<lparr>position := drawn_cell n g\<rparr>, sdrop (2 * n) (stl (stl g)))"
proof (induction n arbitrary: f g)
  case 0
  then show ?case by (subst randomize_position_unfold) simp
next
  case (Suc n)
  from Suc.prems(2) have first: "drawn_cell 0 g \<in> set ps" by simp
  have free: "drawn_cell n (stl (stl g)) \<notin> set ps"
    using Suc.prems(1) by (simp add: drawn_cell_Suc)
  have taken: "\<forall>k<n. drawn_cell k (stl (stl g)) \<in> set ps"
  proof (intro allI impI)
    fix k assume "k < n"
    then have "Suc k < Suc n" by simp
    with Suc.prems(2) have "drawn_cell (Suc k) g \<in> set ps" by blast
    then show "drawn_cell k (stl (stl g)) \<in> set ps" by (simp add: drawn_cell_Suc)
  qed
  from Suc.IH [OF free taken, of "f\<lparr>position := drawn_cell 0 g\<rparr>"] first
  show ?case
    by (subst randomize_position_unfold) (simp add: drawn_cell_Suc)
qed

lemma drawn_cell_0_SCons:
  "drawn_cell 0 (a ## b ## g) = (int (a mod 40), int (b mod 30))"
  by (simp add: drawn_cell_def random_randint_def GRID_WIDTH_eq GRID_HEIGHT_eq)

lemma drawn_cell_Suc_SCons:
  "drawn_cell (Suc n) (a ## b ## g) = drawn_cell n g"
  by (simp add: drawn_cell_Suc)

subsection \<open>The session\<close>

lemma update_keeps_turn:
  assumes "positions s \<noteq> []"
  shows "\<exists>r s'. update s = Inr (r, s') \<and> direction s' = direction (adopt_direction s)
            \<and> next_direction s' = next_direction (adopt_direction s)"
proof -
  from assms obtain hx hy rest where p: "positions s = (hx, hy) # rest"
    by (cases "positions s") auto
  obtain dx dy where d: "direction (adopt_direction s) = (dx, dy)"
    by (cases "direction (adopt_direction s)")
  show ?thesis
    unfolding update_Cons [OF p d] by auto
qed

lemma update_False_head:
  assumes "update s = Inr (False, s')"
  shows "\<exists>nh. get_head_position s' = Inr nh \<and> set (positions s') \<subseteq> insert nh (set (positions s))"
proof (cases "positions s")
  case Nil
  with assms show ?thesis by (simp add: update_Nil)
next
  case (Cons h rest)
  obtain hx hy where h: "h = (hx, hy)" by (cases h)
  obtain dx dy where d: "direction (adopt_direction s) = (dx, dy)"
    by (cases "direction (adopt_direction s)")
  from assms have "positions s' = (hx + dx, hy + dy) # positions s
      \<or> positions s' = (hx + dx, hy + dy) # butlast (positions s)"
    unfolding update_Cons [OF Cons [unfolded h] d]
    by (auto split: if_splits)
  then show ?thesis
    by (auto simp: get_head_position_def dest: in_set_butlastD)
qed

lemma positions_change_direction [simp]: "positions (change_direction d s) = positions s"
  by (simp add: change_direction_def)

lemma handle_event_food:
  assumes "\<not> game_over st \<longrightarrow> position (the_food st) \<notin> set (positions (the_snake st))"
    and "handle_event ev st = Some st'"
  shows "\<not> game_over st' \<longrightarrow> position (the_food st') \<notin> set (positions (the_snake st'))"
proof (cases ev)
  case QUIT
  with assms show ?thesis by (auto simp: handle_event_def)
next
  case OTHER_EVENT
  with assms show ?thesis by (auto simp: handle_event_def)
next
  case (KEYDOWN k)
  show ?thesis
  proof (cases "game_over st")
    case False
    with assms KEYDOWN show ?thesis
      by (auto simp: handle_event_def split: if_splits)
  next
    case True
    show ?thesis
    proof (cases "k = K_r")
      case False
      with assms True KEYDOWN show ?thesis
        by (auto simp: handle_event_def split: if_splits)
    next
      case kr: True
      obtain sn g1 where r: "reset (rand st) = (sn, g1)" by (cases "reset (rand st)")
      from assms(2) True KEYDOWN kr r obtain fd g2
        where rp: "randomize_position (the_food st) (positions sn) g1 = Some (fd, g2)"
          and st': "st' = st\<lparr>the_snake := sn, the_food := fd, game_over := False, rand := g2\<rparr>"
        by (auto simp: handle_event_def split: option.splits)
      from randomize_position_sound [OF rp] st' show ?thesis by simp
    qed
  qed
qed

lemma handle_events_food:
  "(\<not> game_over st \<longrightarrow> position (the_food st) \<notin> set (positions (the_snake st))) \<Longrightarrow>
   handle_events evs st = Some st' \<Longrightarrow>
   \<not> game_over st' \<longrightarrow> position (the_food st') \<notin> set (positions (the_snake st'))"
proof (induction evs arbitrary: st)
  case Nil
  then show ?case by simp
next
  case (Cons ev evs)
  from Cons.prems(2) obtain st1 where h: "handle_event ev st = Some st1"
    and rest: "handle_events evs st1 = Some st'"
    by (auto split: option.splits)
  from handle_event_food [OF Cons.prems(1) h] rest show ?case
    by (rule Cons.IH)
qed

lemma game_logic_food:
  assumes "\<not> game_over st \<longrightarrow> position (the_food st) \<notin> set (positions (the_snake st))"
    and "game_logic st = Some (Inr st')"
  shows "\<not> game_over st' \<longrightarrow> position (the_food st') \<notin> set (positions (the_snake st'))"
proof (cases "game_over st")
  case True
  with assms(2) show ?thesis by (simp add: game_logic_def)
next
  case False
  with assms(2) obtain r sn where u: "update (the_snake st) = Inr (r, sn)"
    by (cases "update (the_snake st)") (auto simp: game_logic_def)
  show ?thesis
  proof (cases r)
    case True
    with assms(2) False u show ?thesis by (auto simp: game_logic_def)
  next
    case r: False
    from u r have "update (the_snake st) = Inr (False, sn)" by simp
    from update_False_head [OF this] obtain nh
      where hd: "get_head_position sn = Inr nh"
        and sub: "set (positions sn) \<subseteq> insert nh (set (positions (the_snake st)))"
      by blast
    show ?thesis
    proof (cases "nh = position (the_food st)")
      case True
      with assms(2) False u r hd obtain fd g'
        where rp: "randomize_position (the_food st) (positions (grow sn)) (rand st) = Some (fd, g')"
          and st': "st' = st\<lparr>the_snake := grow sn, game_over := False, the_food := fd, rand := g'\<rparr>"
        by (auto simp: game_logic_def Let_def split: option.splits)
      from randomize_position_sound [OF rp] st' show ?thesis by simp
    next
      case ne: False
      with assms(2) False u r hd have st': "st' = st\<lparr>the_snake := sn, game_over := False\<rparr>"
        by (auto simp: game_logic_def Let_def)
      from assms(1) False have "position (the_food st) \<notin> set (positions (the_snake st))" by simp
      with sub ne have "position (the_food st) \<notin> set (positions sn)" by auto
      with st' show ?thesis by simp
    qed
  qed
qed

lemma frame_food:
  assumes "\<not> game_over st \<longrightarrow> position (the_food st) \<notin> set (positions (the_snake st))"
    and "frame evs st = Some (Inr st')"
  shows "\<not> game_over st' \<longrightarrow> position (the_food st') \<notin> set (positions (the_snake st'))"
proof -
  from assms(2) obtain st1 where h: "handle_events evs st = Some st1"
    and l: "game_logic st1 = Some (Inr st')"
    by (auto simp: frame_def split: option.splits)
  from handle_events_food [OF assms(1) h] l show ?thesis by (rule game_logic_food)
qed

lemma main_init_food:
  assumes "main_init g = Some st"
  shows "\<not> game_over st \<and> position (the_food st) \<notin> set (positions (the_snake st))"
proof -
  obtain sn g1 where r: "reset g = (sn, g1)" by (cases "reset g")
  from assms r obtain fd g2 fd' g3
    where "Food g1 = Some (fd, g2)"
      and rp: "randomize_position fd (positions sn) g2 = Some (fd', g3)"
      and st: "st = \<lparr>the_snake = sn, the_food = fd', game_over = False, running = True, rand = g3\<rparr>"
    by (auto simp: main_init_def split: option.splits)
  from randomize_position_sound [OF rp] st show ?thesis by simp
qed

lemma reachable_food:
  "reachable st \<Longrightarrow> \<not> game_over st \<longrightarrow> position (the_food st) \<notin> set (positions (the_snake st))"
proof (induction rule: reachable.induct)
  case (start g st)
  then show ?case by (simp add: main_init_food)
next
  case (round st evs st')
  from frame_food [OF round.IH round.hyps(3)] show ?case .
qed

subsection \<open>The sample states, evaluated\<close>

lemma reset_3: "reset (3 ## g) = (lone_snake, g)"
  by (simp add: reset_def random_choice_def lone_snake_def GRID_WIDTH_eq GRID_HEIGHT_eq)

lemma reset_sconst_7: "reset (sconst 7) = (lone_snake, sconst 7)"
  by (simp add: reset_def random_choice_def lone_snake_def GRID_WIDTH_eq GRID_HEIGHT_eq)

lemma drawn_cell_0_sconst_7: "drawn_cell 0 (sconst 7) = (7, 7)"
  by (simp add: drawn_cell_def random_randint_def GRID_WIDTH_eq GRID_HEIGHT_eq)

lemma main_init_sconst_7: "main_init (sconst 7) = Some playing_game"
  by (simp add: main_init_def reset_sconst_7 Food_def
      randomize_position_unfold [of _ _ "sconst 7"] drawn_cell_0_sconst_7
      lone_snake_def playing_game_def)

lemma update_lone_snake:
  "update lone_snake = Inr (False, lone_snake\<lparr>positions := [(21, 15)], next_direction := None\<rparr>)"
  by (simp add: update_def adopt_direction_def get_head_position_def lone_snake_def
        RIGHT_def GRID_WIDTH_eq GRID_HEIGHT_eq Let_def)

lemma game_logic_feeding_game:
  "game_logic feeding_game =
     Some (Inr (feeding_game\<lparr>the_snake := grow (lone_snake\<lparr>positions := [(21, 15)], next_direction := None\<rparr>),
                               the_food := \<lparr>position = (7, 7)\<rparr>, rand := sconst 7\<rparr>))"
  by (simp add: game_logic_def feeding_game_def update_lone_snake get_head_position_def
      randomize_position_unfold [of _ _ "_ ## _"] randomize_position_unfold [of _ _ "sconst 7"]
      drawn_cell_0_SCons drawn_cell_0_sconst_7)

lemma restart_over_game: "handle_event (KEYDOWN K_r) over_game = Some playing_game"
  by (simp add: handle_event_def over_game_def reset_3
      randomize_position_unfold [of _ _ "_ ## _"] randomize_position_unfold [of _ _ "sconst 7"]
      drawn_cell_0_SCons drawn_cell_0_sconst_7 playing_game_def lone_snake_def)

subsection \<open>Frame rate\<close>





lemma score_adopt_direction [simp]: "score (adopt_direction s) = score s"
  by (simp add: adopt_direction_def split: option.splits)










section \<open>The claims\<close>

text \<open>
  C1. Whenever the new head that \<^verbatim>\<open>update\<close> computes (the head plus the direction in
  force after the buffered turn) lies inside the grid and on a cell of the body,
  \<^verbatim>\<open>update\<close> returns \<^verbatim>\<open>True\<close>, with one exemption: if that cell is the tail and
  \<^verbatim>\<open>grow_pending\<close> is \<open>0\<close>, it returns \<^verbatim>\<open>False\<close> and the snake moves, the new head
  in front and the tail cell removed. With the same geometry and growth pending, the
  call is a collision.
\<close>

theorem self_collision_tail_exemption:
  assumes "positions s = (hx, hy) # rest"
    and "direction (adopt_direction s) = (dx, dy)"
    and "in_grid (hx + dx, hy + dy)"
    and "(hx + dx, hy + dy) \<in> set (positions s)"
  shows "update s =
     (if (hx + dx, hy + dy) = last (positions s) \<and> grow_pending s = 0
      then Inr (False, (adopt_direction s)\<lparr>positions := (hx + dx, hy + dy) # butlast (positions s)\<rparr>)
      else Inr (True, adopt_direction s))"
  using assms(3,4) by (simp add: update_Cons [OF assms(1,2)])

theorem self_collision_tail_exemption_witness:
  "positions coiled_snake = (5, 5) # [(5, 6), (6, 6), (6, 5)]
   \<and> direction (adopt_direction coiled_snake) = (1, 0)
   \<and> in_grid (5 + 1, 5 + 0)
   \<and> (5 + 1, 5 + 0) \<in> set (positions coiled_snake)
   \<and> update coiled_snake = Inr (False, coiled_snake\<lparr>positions := [(6, 5), (5, 5), (5, 6), (6, 6)]\<rparr>)
   \<and> update (coiled_snake\<lparr>grow_pending := 1\<rparr>) = Inr (True, coiled_snake\<lparr>grow_pending := 1\<rparr>)"
proof -
  have p: "positions coiled_snake = (5, 5) # [(5, 6), (6, 6), (6, 5)]"
    by (simp add: coiled_snake_def)
  have a: "adopt_direction coiled_snake = coiled_snake"
    by (simp add: adopt_direction_def coiled_snake_def)
  have d: "direction (adopt_direction coiled_snake) = (1, 0)"
    by (simp add: a) (simp add: coiled_snake_def RIGHT_def)
  have g: "in_grid (5 + 1, 5 + 0)"
    by (simp add: in_grid_def GRID_WIDTH_eq GRID_HEIGHT_eq)
  have m: "(5 + 1, 5 + 0) \<in> set (positions coiled_snake)"
    by (simp add: coiled_snake_def)
  have p': "positions (coiled_snake\<lparr>grow_pending := 1\<rparr>) = (5, 5) # [(5, 6), (6, 6), (6, 5)]"
    by (simp add: coiled_snake_def)
  have a': "adopt_direction (coiled_snake\<lparr>grow_pending := 1\<rparr>) = coiled_snake\<lparr>grow_pending := 1\<rparr>"
    by (simp add: adopt_direction_def coiled_snake_def)
  have d': "direction (adopt_direction (coiled_snake\<lparr>grow_pending := 1\<rparr>)) = (1, 0)"
    by (simp add: a') (simp add: coiled_snake_def RIGHT_def)
  have m': "(5 + 1, 5 + 0) \<in> set (positions (coiled_snake\<lparr>grow_pending := 1\<rparr>))"
    by (simp add: coiled_snake_def)
  have "update coiled_snake = Inr (False, coiled_snake\<lparr>positions := [(6, 5), (5, 5), (5, 6), (6, 6)]\<rparr>)"
    using self_collision_tail_exemption [OF p d g m] by (simp add: a) (simp add: coiled_snake_def)
  moreover have "update (coiled_snake\<lparr>grow_pending := 1\<rparr>) = Inr (True, coiled_snake\<lparr>grow_pending := 1\<rparr>)"
    using self_collision_tail_exemption [OF p' d' g m'] by (simp add: a')
  ultimately show ?thesis using p d g m by simp
qed

text \<open>
  C2. For a snake with a non-empty body, after \<^verbatim>\<open>change_direction\<close> with the exact
  opposite of the current direction, any number of calls of \<^verbatim>\<open>update\<close> return
  without an exception and leave the direction as it was: the reversal is not adopted
  by the first call nor by any later one, as long as no other direction is submitted.
  The buffer changes only in a call that adopts its content, which clears it.
\<close>

theorem reversal_never_adopted:
  assumes "positions s \<noteq> []"
  shows "(\<exists>s'. run_updates n (change_direction (opposite (direction s)) s) = Inr s'
            \<and> direction s' = direction s
            \<and> next_direction s' = Some (opposite (direction s)))
       \<and> (update t = Inr (r, t') \<and> next_direction t' \<noteq> next_direction t \<longrightarrow>
            (\<exists>nd. next_direction t = Some nd \<and> opposite nd \<noteq> direction t
                 \<and> direction t' = nd \<and> next_direction t' = None))"
proof
  have "positions (change_direction (opposite (direction s)) s) \<noteq> []"
    using assms by (simp add: change_direction_def)
  moreover have "next_direction (change_direction (opposite (direction s)) s)
      = Some (opposite (direction (change_direction (opposite (direction s)) s)))"
    by (simp add: change_direction_def)
  ultimately show "\<exists>s'. run_updates n (change_direction (opposite (direction s)) s) = Inr s'
            \<and> direction s' = direction s
            \<and> next_direction s' = Some (opposite (direction s))"
    using run_updates_reversal [of "change_direction (opposite (direction s)) s" n]
    by (simp add: change_direction_def)
next
  show "update t = Inr (r, t') \<and> next_direction t' \<noteq> next_direction t \<longrightarrow>
            (\<exists>nd. next_direction t = Some nd \<and> opposite nd \<noteq> direction t
                 \<and> direction t' = nd \<and> next_direction t' = None)"
    using update_buffer_change by blast
qed

theorem reversal_never_adopted_witness:
  "positions coiled_snake \<noteq> []
   \<and> (\<exists>s'. run_updates 3 (change_direction LEFT coiled_snake) = Inr s'
          \<and> direction s' = RIGHT \<and> next_direction s' = Some LEFT)
   \<and> update lone_snake = Inr (False, lone_snake\<lparr>positions := [(21, 15)], next_direction := None\<rparr>)
   \<and> next_direction (lone_snake\<lparr>positions := [(21, 15)], next_direction := None\<rparr>)
        \<noteq> next_direction lone_snake
   \<and> (\<exists>nd. next_direction lone_snake = Some nd \<and> opposite nd \<noteq> direction lone_snake
          \<and> direction (lone_snake\<lparr>positions := [(21, 15)], next_direction := None\<rparr>) = nd)"
proof -
  have ne: "positions coiled_snake \<noteq> []"
    by (simp add: coiled_snake_def)
  have dir: "direction coiled_snake = RIGHT" and opp: "opposite RIGHT = LEFT"
    by (simp_all add: coiled_snake_def opposite_def RIGHT_def LEFT_def)
  have u: "update lone_snake = Inr (False, lone_snake\<lparr>positions := [(21, 15)], next_direction := None\<rparr>)"
    by (simp add: update_def adopt_direction_def get_head_position_def lone_snake_def
        RIGHT_def GRID_WIDTH_eq GRID_HEIGHT_eq Let_def)
  have c: "next_direction (lone_snake\<lparr>positions := [(21, 15)], next_direction := None\<rparr>)
        \<noteq> next_direction lone_snake"
    by (simp add: lone_snake_def)
  from reversal_never_adopted [OF ne, of 3 lone_snake False
      "lone_snake\<lparr>positions := [(21, 15)], next_direction := None\<rparr>"] u c ne
  show ?thesis
    unfolding dir opp by auto
qed

text \<open>
  C3. From a state with \<^verbatim>\<open>grow_pending\<close> \<open>0\<close>, one call of \<^verbatim>\<open>grow\<close> followed by
  \<open>n + 1\<close> calls of \<^verbatim>\<open>update\<close> that all return \<^verbatim>\<open>False\<close> leaves a body exactly one
  cell longer, for every \<open>n\<close>: the cell is gained in the first call and the length is
  the same after each later one, no growth being owed any more.
\<close>

theorem growth_conservation:
  assumes "grow_pending s = 0" and "update_times (Suc n) (grow s) = Some s'"
  shows "length (positions s') = length (positions s) + 1 \<and> grow_pending s' = 0"
proof -
  from assms(2) obtain s1 where u: "update (grow s) = Inr (False, s1)"
    and rest: "update_times n s1 = Some s'"
    by (auto split: sum.splits if_splits)
  from update_False_effect [OF u] assms(1)
  have "length (positions s1) = length (positions s) + 1" and "grow_pending s1 = 0" by simp_all
  with update_times_steady [OF _ rest] show ?thesis by simp
qed

theorem growth_conservation_witness:
  "grow_pending lone_snake = 0
   \<and> update_times (Suc 1) (grow lone_snake)
       = Some (lone_snake\<lparr>positions := [(22, 15), (21, 15)], next_direction := None, score := 1\<rparr>)
   \<and> length (positions (lone_snake\<lparr>positions := [(22, 15), (21, 15)],
                                     next_direction := None, score := 1\<rparr>))
       = length (positions lone_snake) + 1"
proof -
  have g: "grow_pending lone_snake = 0"
    by (simp add: lone_snake_def)
  have u: "update_times (Suc 1) (grow lone_snake)
       = Some (lone_snake\<lparr>positions := [(22, 15), (21, 15)], next_direction := None, score := 1\<rparr>)"
    by (simp add: update_def adopt_direction_def get_head_position_def grow_def lone_snake_def
        RIGHT_def GRID_WIDTH_eq GRID_HEIGHT_eq Let_def)
  from growth_conservation [OF g u] g u show ?thesis by simp
qed

text \<open>
  C4. A call of \<^verbatim>\<open>update\<close> that detects a collision, the new head outside the grid or
  on a body cell other than a vacating tail, returns \<^verbatim>\<open>True\<close> as a value and raises
  nothing; and whenever \<^verbatim>\<open>update\<close> returns \<^verbatim>\<open>True\<close>, the list of body cells is the one
  it was called with.
\<close>

theorem collision_returns_True_body_intact:
  "(update s = Inr (True, s') \<longrightarrow> positions s' = positions s) \<and>
   (positions s = (hx, hy) # rest \<and> direction (adopt_direction s) = (dx, dy) \<and>
     (\<not> in_grid (hx + dx, hy + dy) \<or>
      ((hx + dx, hy + dy) \<in> set (positions s) \<and>
        \<not> ((hx + dx, hy + dy) = last (positions s) \<and> grow_pending s = 0)))
     \<longrightarrow> update s = Inr (True, adopt_direction s)
         \<and> positions (adopt_direction s) = positions s)"
proof (intro conjI impI)
  assume "update s = Inr (True, s')"
  then show "positions s' = positions s" by (rule update_True_positions)
next
  assume a: "positions s = (hx, hy) # rest \<and> direction (adopt_direction s) = (dx, dy) \<and>
     (\<not> in_grid (hx + dx, hy + dy) \<or>
      ((hx + dx, hy + dy) \<in> set (positions s) \<and>
        \<not> ((hx + dx, hy + dy) = last (positions s) \<and> grow_pending s = 0)))"
  then have p: "positions s = (hx, hy) # rest" and d: "direction (adopt_direction s) = (dx, dy)"
    by simp_all
  from a show "update s = Inr (True, adopt_direction s)"
    unfolding update_Cons [OF p d] by auto
next
  show "positions (adopt_direction s) = positions s" by simp
qed

theorem collision_returns_True_body_intact_witness:
  "positions wall_snake = (39, 15) # [(38, 15)]
   \<and> direction (adopt_direction wall_snake) = (1, 0)
   \<and> \<not> in_grid (39 + 1, 15 + 0)
   \<and> update wall_snake = Inr (True, wall_snake)"
proof -
  have a: "adopt_direction wall_snake = wall_snake"
    by (simp add: adopt_direction_def wall_snake_def)
  have p: "positions wall_snake = (39, 15) # [(38, 15)]"
    by (simp add: wall_snake_def)
  have d: "direction (adopt_direction wall_snake) = (1, 0)"
    unfolding a by (simp add: wall_snake_def RIGHT_def)
  have g: "\<not> in_grid (39 + 1, 15 + 0)"
    by (simp add: in_grid_def GRID_WIDTH_eq)
  from collision_returns_True_body_intact [of wall_snake wall_snake 39 15 "[(38, 15)]" 1 0] p d g
  have "update wall_snake = Inr (True, wall_snake)"
    unfolding a by simp
  with p d g show ?thesis by simp
qed

text \<open>
  C9. One call of \<^verbatim>\<open>grow\<close> adds exactly \<open>1\<close> to the score, and moves the colour index
  to its successor modulo the palette size \<open>8\<close> exactly when the new score is a positive
  multiple of \<open>10\<close>, leaving it alone otherwise. Hence \<open>n\<close> calls from score \<open>0\<close> and colour
  index \<open>0\<close> give score \<open>n\<close> and colour index \<open>0\<close> for \<open>n\<close> in 1--9, \<open>1\<close> in 10--19,
  \<open>2\<close> in 20--29 and \<open>3\<close> at \<open>30\<close>.
\<close>

theorem grow_score_and_color_tier:
  "score (grow s) = score s + 1
   \<and> color_index (grow s) =
       (if 0 < score (grow s) \<and> score (grow s) mod 10 = 0
        then (color_index s + 1) mod 8 else color_index s)
   \<and> (score s = 0 \<and> color_index s = 0 \<longrightarrow>
        score ((grow ^^ n) s) = int n
        \<and> (1 \<le> n \<and> n \<le> 9 \<longrightarrow> color_index ((grow ^^ n) s) = 0)
        \<and> (10 \<le> n \<and> n \<le> 19 \<longrightarrow> color_index ((grow ^^ n) s) = 1)
        \<and> (20 \<le> n \<and> n \<le> 29 \<longrightarrow> color_index ((grow ^^ n) s) = 2)
        \<and> (n = 30 \<longrightarrow> color_index ((grow ^^ n) s) = 3))"
proof (intro conjI impI)
  show "score (grow s) = score s + 1" by (rule grow_score)
next
  show "color_index (grow s) =
       (if 0 < score (grow s) \<and> score (grow s) mod 10 = 0
        then (color_index s + 1) mod 8 else color_index s)"
    unfolding grow_score by (rule grow_color_index)
next
  assume "score s = 0 \<and> color_index s = 0"
  then show "score ((grow ^^ n) s) = int n"
    using grow_iter [of s n] by simp
next
  assume "score s = 0 \<and> color_index s = 0" and "1 \<le> n \<and> n \<le> 9"
  moreover from this have "n div 10 = 0" by simp
  ultimately show "color_index ((grow ^^ n) s) = 0"
    using grow_iter [of s n] by (simp add: zdiv_int)
next
  assume "score s = 0 \<and> color_index s = 0" and "10 \<le> n \<and> n \<le> 19"
  moreover from this have "n div 10 = 1" by (intro div_nat_eqI) simp_all
  ultimately show "color_index ((grow ^^ n) s) = 1"
    using grow_iter [of s n] by (simp add: zdiv_int)
next
  assume "score s = 0 \<and> color_index s = 0" and "20 \<le> n \<and> n \<le> 29"
  moreover from this have "n div 10 = 2" by (intro div_nat_eqI) simp_all
  ultimately show "color_index ((grow ^^ n) s) = 2"
    using grow_iter [of s n] by (simp add: zdiv_int)
next
  assume "score s = 0 \<and> color_index s = 0" and "n = 30"
  then show "color_index ((grow ^^ n) s) = 3"
    using grow_iter [of s 30] by simp
qed

theorem grow_score_and_color_tier_witness:
  "score lone_snake = 0 \<and> color_index lone_snake = 0
   \<and> score (grow lone_snake) = 1
   \<and> color_index ((grow ^^ 9) lone_snake) = 0
   \<and> color_index ((grow ^^ 10) lone_snake) = 1
   \<and> color_index ((grow ^^ 29) lone_snake) = 2
   \<and> color_index ((grow ^^ 30) lone_snake) = 3"
proof -
  have z: "score lone_snake = 0 \<and> color_index lone_snake = 0"
    by (simp add: lone_snake_def)
  from z grow_score_and_color_tier [of lone_snake 9]
    grow_score_and_color_tier [of lone_snake 10]
    grow_score_and_color_tier [of lone_snake 29]
    grow_score_and_color_tier [of lone_snake 30]
  show ?thesis by simp
qed

text \<open>
  C6. When \<^verbatim>\<open>randomize_position\<close> returns, the position it leaves in the food is a cell
  of the grid, \<open>0 \<le> x < GRID_WIDTH\<close> and \<open>0 \<le> y < GRID_HEIGHT\<close>, and is not one of the
  excluded cells; this holds for every excluded list and every random source.
\<close>

theorem randomize_position_free_grid_cell:
  assumes "randomize_position f snake_positions g = Some (f', g')"
  shows "0 \<le> fst (position f') \<and> fst (position f') < GRID_WIDTH
       \<and> 0 \<le> snd (position f') \<and> snd (position f') < GRID_HEIGHT
       \<and> position f' \<notin> set snake_positions"
  using randomize_position_sound [OF assms] by (simp add: in_grid_def)

theorem randomize_position_free_grid_cell_witness:
  "randomize_position \<lparr>position = (0, 0)\<rparr> [(20, 15), (21, 15)] (20 ## 15 ## 61 ## 45 ## 7 ## 9 ## sconst 0)
     = Some (\<lparr>position = (7, 9)\<rparr>, sconst 0)
   \<and> 0 \<le> fst (7 :: int, 9 :: int) \<and> fst (7 :: int, 9 :: int) < GRID_WIDTH
   \<and> 0 \<le> snd (7 :: int, 9 :: int) \<and> snd (7 :: int, 9 :: int) < GRID_HEIGHT
   \<and> (7, 9) \<notin> set [(20 :: int, 15 :: int), (21, 15)]"
proof -
  have r: "randomize_position \<lparr>position = (0, 0)\<rparr> [(20, 15), (21, 15)]
       (20 ## 15 ## 61 ## 45 ## 7 ## 9 ## sconst 0) = Some (\<lparr>position = (7, 9)\<rparr>, sconst 0)"
    by (simp add: randomize_position_unfold [of _ _ "_ ## _"] drawn_cell_0_SCons)
  from randomize_position_free_grid_cell [OF r] r show ?thesis by simp
qed

text \<open>
  C7, counterexample. There is no bound on the attempts and no
  \<^verbatim>\<open>FoodPlacementExhausted\<close> error: with every cell of the grid excluded,
  \<^verbatim>\<open>randomize_position\<close> never returns, here from the dummy position of
  \<^verbatim>\<open>Food.__init__\<close> and a constant random source.
\<close>

theorem randomize_position_full_grid_diverges:
  "randomize_position \<lparr>position = (0, 0)\<rparr> full_grid (sconst 0) = None"
  by (rule randomize_position_full_grid)

text \<open>
  C7, amended. \<^verbatim>\<open>randomize_position\<close> draws cells without any bound on the
  number of rounds and has no error result: it returns at the first drawn cell that
  is not excluded, after \<open>n + 1\<close> rounds if that is the \<open>n\<close>-th draw, whatever \<open>n\<close> is;
  it never returns if no drawn cell is free, and so never when the excluded cells
  cover the whole grid.
\<close>

theorem randomize_position_retries_without_bound:
  "(drawn_cell n g \<notin> set ps \<and> (\<forall>k<n. drawn_cell k g \<in> set ps) \<longrightarrow>
      randomize_position f ps g
        = Some (f\<lparr>position := drawn_cell n g\<rparr>, sdrop (2 * n) (stl (stl g))))
   \<and> ((\<forall>k. drawn_cell k g \<in> set ps) \<longrightarrow> randomize_position f ps g = None)
   \<and> ((\<forall>p. in_grid p \<longrightarrow> p \<in> set ps) \<longrightarrow> randomize_position f ps g = None)"
proof (intro conjI impI)
  assume "drawn_cell n g \<notin> set ps \<and> (\<forall>k<n. drawn_cell k g \<in> set ps)"
  then show "randomize_position f ps g
        = Some (f\<lparr>position := drawn_cell n g\<rparr>, sdrop (2 * n) (stl (stl g)))"
    by (simp add: randomize_position_first_free)
next
  assume all: "\<forall>k. drawn_cell k g \<in> set ps"
  show "randomize_position f ps g = None"
  proof (rule ccontr)
    assume "randomize_position f ps g \<noteq> None"
    then obtain r where "randomize_position f ps g = Some r" by auto
    from randomize_position_drawn [OF this] all show False by simp
  qed
next
  assume cover: "\<forall>p. in_grid p \<longrightarrow> p \<in> set ps"
  show "randomize_position f ps g = None"
  proof (rule ccontr)
    assume "randomize_position f ps g \<noteq> None"
    then obtain r where "randomize_position f ps g = Some r" by auto
    from randomize_position_drawn [OF this] obtain k where "drawn_cell k g \<notin> set ps" ..
    with cover drawn_cell_in_grid [of k g] show False by blast
  qed
qed

theorem randomize_position_retries_without_bound_witness:
  "drawn_cell 0 (3 ## 4 ## 43 ## 34 ## 5 ## 6 ## sconst 1) \<in> set [(3, 4)]
   \<and> drawn_cell 1 (3 ## 4 ## 43 ## 34 ## 5 ## 6 ## sconst 1) \<in> set [(3, 4)]
   \<and> drawn_cell 2 (3 ## 4 ## 43 ## 34 ## 5 ## 6 ## sconst 1) \<notin> set [(3, 4)]
   \<and> randomize_position \<lparr>position = (0, 0)\<rparr> [(3, 4)] (3 ## 4 ## 43 ## 34 ## 5 ## 6 ## sconst 1)
       = Some (\<lparr>position = (5, 6)\<rparr>, sconst 1)
   \<and> randomize_position \<lparr>position = (0, 0)\<rparr> [(3, 13)] (sconst 43) = None
   \<and> randomize_position \<lparr>position = (0, 0)\<rparr> full_grid (sconst 1) = None"
proof -
  let ?g = "3 ## 4 ## 43 ## 34 ## 5 ## 6 ## sconst 1"
  have two: "drawn_cell 2 ?g = (5, 6)"
    by (simp add: numeral_2_eq_2 drawn_cell_Suc_SCons drawn_cell_0_SCons)
  have free: "drawn_cell 2 ?g \<notin> set [(3, 4)]"
    unfolding two by simp
  have first: "drawn_cell 0 ?g \<in> set [(3, 4)]" and second: "drawn_cell 1 ?g \<in> set [(3, 4)]"
    by (simp_all add: drawn_cell_Suc_SCons drawn_cell_0_SCons)
  from first second have taken: "\<forall>k<2. drawn_cell k ?g \<in> set [(3, 4)]"
    by (simp add: numeral_2_eq_2 All_less_Suc)
  have rest: "sdrop (2 * 2) (stl (stl ?g)) = sconst 1"
    by (simp add: numeral_eq_Suc)
  have const: "\<forall>k. drawn_cell k (sconst 43) \<in> set [(3, 13)]"
    by (simp add: drawn_cell_def random_randint_def GRID_WIDTH_eq GRID_HEIGHT_eq)
  have cover: "\<forall>p. in_grid p \<longrightarrow> p \<in> set full_grid"
    by (simp add: set_full_grid)
  from randomize_position_retries_without_bound [of 2 ?g "[(3, 4)]" "\<lparr>position = (0, 0)\<rparr>"]
    free taken
  have "randomize_position \<lparr>position = (0, 0)\<rparr> [(3, 4)] ?g = Some (\<lparr>position = (5, 6)\<rparr>, sconst 1)"
    unfolding rest two by simp
  moreover from randomize_position_retries_without_bound
    [of 0 "sconst 43" "[(3, 13)]" "\<lparr>position = (0, 0)\<rparr>"] const
  have "randomize_position \<lparr>position = (0, 0)\<rparr> [(3, 13)] (sconst 43) = None"
    by blast
  moreover from randomize_position_retries_without_bound
    [of 0 "sconst 1" full_grid "\<lparr>position = (0, 0)\<rparr>"] cover
  have "randomize_position \<lparr>position = (0, 0)\<rparr> full_grid (sconst 1) = None"
    by blast
  ultimately show ?thesis using first second free by blast
qed

text \<open>
  C5. While the game-over flag is false the food is on no cell of the snake: this holds
  for the session that \<^verbatim>\<open>main\<close> sets up, is kept by the game logic of every frame, is
  established by a restart, and so holds in every state the loop reaches.
\<close>

theorem food_off_snake_while_playing:
  "(main_init g0 = Some st0 \<longrightarrow>
      \<not> game_over st0 \<and> position (the_food st0) \<notin> set (positions (the_snake st0)))
   \<and> ((\<not> game_over st1 \<longrightarrow> position (the_food st1) \<notin> set (positions (the_snake st1)))
        \<and> game_logic st1 = Some (Inr st1') \<and> \<not> game_over st1' \<longrightarrow>
      position (the_food st1') \<notin> set (positions (the_snake st1')))
   \<and> (game_over st2 \<and> handle_event (KEYDOWN K_r) st2 = Some st2' \<longrightarrow>
      \<not> game_over st2' \<and> position (the_food st2') \<notin> set (positions (the_snake st2')))
   \<and> (reachable st \<and> \<not> game_over st \<longrightarrow>
      position (the_food st) \<notin> set (positions (the_snake st)))"
proof (intro conjI impI)
  assume "main_init g0 = Some st0"
  then show "\<not> game_over st0" and "position (the_food st0) \<notin> set (positions (the_snake st0))"
    by (simp_all add: main_init_food)
next
  assume a: "(\<not> game_over st1 \<longrightarrow> position (the_food st1) \<notin> set (positions (the_snake st1)))
        \<and> game_logic st1 = Some (Inr st1') \<and> \<not> game_over st1'"
  then have "\<not> game_over st1' \<longrightarrow> position (the_food st1') \<notin> set (positions (the_snake st1'))"
    using game_logic_food [of st1 st1'] by blast
  with a show "position (the_food st1') \<notin> set (positions (the_snake st1'))" by blast
next
  assume a: "game_over st2 \<and> handle_event (KEYDOWN K_r) st2 = Some st2'"
  then have h: "handle_event (KEYDOWN K_r) st2 = Some st2'" and "\<not> \<not> game_over st2" by simp_all
  then have "\<not> game_over st2' \<longrightarrow> position (the_food st2') \<notin> set (positions (the_snake st2'))"
    using handle_event_food [of st2 "KEYDOWN K_r" st2'] by blast
  moreover from a show "\<not> game_over st2'"
    by (auto simp: handle_event_def split: option.splits prod.splits)
  ultimately show "position (the_food st2') \<notin> set (positions (the_snake st2'))" by blast
next
  assume "reachable st \<and> \<not> game_over st"
  then show "position (the_food st) \<notin> set (positions (the_snake st))"
    using reachable_food [of st] by blast
qed

theorem food_off_snake_while_playing_witness:
  "main_init (sconst 7) = Some playing_game
   \<and> \<not> game_over feeding_game
   \<and> position (the_food feeding_game) \<notin> set (positions (the_snake feeding_game))
   \<and> game_logic feeding_game =
       Some (Inr (feeding_game\<lparr>the_snake := grow (lone_snake\<lparr>positions := [(21, 15)], next_direction := None\<rparr>),
                                 the_food := \<lparr>position = (7, 7)\<rparr>, rand := sconst 7\<rparr>))
   \<and> (7, 7) \<notin> set [(21 :: int, 15 :: int)]
   \<and> game_over over_game
   \<and> handle_event (KEYDOWN K_r) over_game = Some playing_game
   \<and> reachable playing_game
   \<and> \<not> game_over playing_game
   \<and> position (the_food playing_game) \<notin> set (positions (the_snake playing_game))"
proof -
  let ?fed = "feeding_game\<lparr>the_snake := grow (lone_snake\<lparr>positions := [(21, 15)], next_direction := None\<rparr>),
                                 the_food := \<lparr>position = (7, 7)\<rparr>, rand := sconst 7\<rparr>"
  have r: "reachable playing_game"
    using main_init_sconst_7 by (rule reachable.start)
  have f: "\<not> game_over feeding_game"
    "position (the_food feeding_game) \<notin> set (positions (the_snake feeding_game))"
    by (simp_all add: feeding_game_def lone_snake_def)
  have fed: "\<not> game_over ?fed" by (simp add: feeding_game_def)
  have o: "game_over over_game" by (simp add: over_game_def)
  have p: "\<not> game_over playing_game" by (simp add: playing_game_def)
  from food_off_snake_while_playing
    [of "sconst 7" playing_game feeding_game ?fed over_game playing_game playing_game]
    main_init_sconst_7 f fed game_logic_feeding_game o restart_over_game r p
  show ?thesis by simp
qed

text \<open>
  C8, counterexample. An out-of-range direction is not ignored: \<^verbatim>\<open>change_direction\<close>
  with the vector \<open>(2, 0)\<close>, which is none of the four directions, changes the snake,
  and the next \<^verbatim>\<open>update\<close> adopts it and moves the head two columns.
\<close>

theorem change_direction_stores_any_vector:
  "(2, 0) \<notin> {UP, DOWN, LEFT, RIGHT}
   \<and> change_direction (2, 0) lone_snake \<noteq> lone_snake
   \<and> update (change_direction (2, 0) lone_snake)
       = Inr (False, lone_snake\<lparr>positions := [(22, 15)], direction := (2, 0),
                                 next_direction := None\<rparr>)"
  by (simp add: change_direction_def lone_snake_def UP_def DOWN_def LEFT_def RIGHT_def
      update_def adopt_direction_def get_head_position_def GRID_WIDTH_eq GRID_HEIGHT_eq Let_def)

text \<open>
  C8, amended. \<^verbatim>\<open>change_direction\<close> validates nothing: whatever vector it is
  given becomes the buffered direction, and the next \<^verbatim>\<open>update\<close> of a non-empty snake
  adopts it unless it is the exact opposite of the current direction. While the game
  is not over, a key press other than the four arrows, the restart key and the quit
  key among them, leaves the session as it is and raises nothing, and so does an
  event that is neither a key press nor the window's close request.
\<close>

theorem invalid_commands:
  "next_direction (change_direction d s) = Some d
   \<and> (positions s \<noteq> [] \<and> opposite d \<noteq> direction s \<longrightarrow>
        (\<exists>r s'. update (change_direction d s) = Inr (r, s')
               \<and> direction s' = d \<and> next_direction s' = None))
   \<and> (\<not> game_over st \<and> k \<notin> {K_UP, K_DOWN, K_LEFT, K_RIGHT} \<longrightarrow>
        handle_event (KEYDOWN k) st = Some st)
   \<and> handle_event OTHER_EVENT st = Some st"
proof (intro conjI impI)
  show "next_direction (change_direction d s) = Some d"
    by (simp add: change_direction_def)
next
  assume a: "positions s \<noteq> [] \<and> opposite d \<noteq> direction s"
  then have ne: "positions (change_direction d s) \<noteq> []" by simp
  from a have ad: "adopt_direction (change_direction d s)
      = (change_direction d s)\<lparr>direction := d, next_direction := None\<rparr>"
    by (simp add: adopt_direction_def change_direction_def opposite_def)
  from update_keeps_turn [OF ne]
  show "\<exists>r s'. update (change_direction d s) = Inr (r, s')
               \<and> direction s' = d \<and> next_direction s' = None"
    unfolding ad by simp
next
  assume "\<not> game_over st \<and> k \<notin> {K_UP, K_DOWN, K_LEFT, K_RIGHT}"
  then show "handle_event (KEYDOWN k) st = Some st"
    by (simp add: handle_event_def)
next
  show "handle_event OTHER_EVENT st = Some st"
    by (simp add: handle_event_def)
qed

theorem invalid_commands_witness:
  "positions lone_snake \<noteq> [] \<and> opposite (2, 0) \<noteq> direction lone_snake
   \<and> (\<exists>r s'. update (change_direction (2, 0) lone_snake) = Inr (r, s')
            \<and> direction s' = (2, 0) \<and> next_direction s' = None)
   \<and> \<not> game_over playing_game
   \<and> K_r \<notin> {K_UP, K_DOWN, K_LEFT, K_RIGHT} \<and> K_q \<notin> {K_UP, K_DOWN, K_LEFT, K_RIGHT}
   \<and> handle_event (KEYDOWN K_r) playing_game = Some playing_game
   \<and> handle_event (KEYDOWN K_q) playing_game = Some playing_game"
proof -
  have a: "positions lone_snake \<noteq> [] \<and> opposite (2, 0) \<noteq> direction lone_snake"
    by (simp add: lone_snake_def opposite_def RIGHT_def)
  have p: "\<not> game_over playing_game" by (simp add: playing_game_def)
  from invalid_commands [of "(2, 0)" lone_snake playing_game K_r]
    invalid_commands [of "(2, 0)" lone_snake playing_game K_q] a p
  show ?thesis by simp
qed



end
